theory Spec2Isabelle
  imports Main
begin

section \<open>The match lifecycle coordinator of \<open>gameapp/match_objects/match.py\<close>\<close>

text \<open>
  The class \<open>Match\<close> is embedded as a record that is passed through every method. Calls
  to the collaborators that live outside the class (socket layer, ORM, HTTP client, the
  waiting timer, the game process, the match registry) are appended, in program order, to
  the trace \<open>effects\<close>; calls to the logger are appended to \<open>logs\<close>. A Python exception
  is a value of type \<open>outcome\<close>; the state returned with it holds every assignment
  the method made before it raised.
\<close>

subsection \<open>Data\<close>

datatype MatchStage = NOT_STARTED | WAITING | MATCH | FINISHED

text \<open>The integer values of the enumeration \<open>MatchStage\<close>.\<close>

fun stage_value :: "MatchStage \<Rightarrow> nat" where
  "stage_value NOT_STARTED = 0"
| "stage_value WAITING = 1"
| "stage_value MATCH = 2"
| "stage_value FINISHED = 3"

text \<open>
  \<open>MatchUser\<close> (\<open>RealUser\<close> and \<open>AiUser\<close> of \<open>matchuser.py\<close>): a dictionary with
  the keys \<open>is_ai\<close>, \<open>sid\<close> and \<open>id\<close>. The key \<open>id\<close> is the field \<open>user_id\<close> here.
\<close>

record MatchUser =
  is_ai :: bool
  sid :: string
  user_id :: int

text \<open>
  The fields of the ORM row \<open>TempMatch\<close> that the class reads: its \<open>id\<close>, the \<open>id\<close> of
  \<open>winner_match\<close> when there is one, and \<open>match_room.id\<close>, \<open>match_room.room_name\<close>.
\<close>

record TempMatch =
  match_id :: int
  winner_match :: "int option"
  match_room_id :: int
  match_room_name :: string

text \<open>
  What the outside world answers during one call of a method: the clock \<open>now()\<close>, the
  value of \<open>self.match.start_at\<close> (the game process shares the row and sets it), the
  result of \<open>get_scores()\<close>, the field \<open>ok\<close> of the response of \<open>post\<close>, and the constant
  \<open>AI_ID\<close> of \<open>matchuser.py\<close>. Times are integers; \<open>isoformat\<close> and
  \<open>total_seconds\<close> are not applied.
\<close>

text \<open>
  Modelled from the spec: \<open>post\<close> of \<open>gameapp/requests.py\<close> (not among the sources). The
  report is an outbound call that gives back a response; a failed or non-2xx response has
  \<open>ok\<close> false, and the call itself does not raise. \<open>resp_ok\<close> is that field.
\<close>

record env =
  now :: int
  start_at :: "int option"
  get_scores :: "int \<times> int"
  resp_ok :: bool
  AI_ID :: int

record json_obj =
  player1_id :: int
  player1_score :: int
  player2_id :: int
  player2_score :: int
  winner_id :: int
  match_date :: int
  play_time :: int

record game_over_data =
  winner :: string
  paddle1 :: int
  paddle2 :: int

datatype effect =
    EmitInit string string
  | EmitGameOver game_over_data string
  | EnterRoom string string
  | SioDisconnect string
  | PostDashboard json_obj
  | RoomUserDelete int int
  | RoomUserDeleteAll int
  | RoomDelete string
  | MatchUserCreate int int
  | MatchDecided MatchUser int
  | DeleteMatchId int
  | WaitingStart
  | WaitingStop
  | ProcessStart
  | ProcessStop

datatype log_level = INFO | ERROR

datatype exn = IndexError | AssertionError

datatype 'a outcome = Returned 'a | Raised exn

text \<open>
  Modelled from the spec: the Waiting Timer (\<open>timeout.py\<close> is not among the sources).
  \<open>start()\<close> arms it and \<open>stop()\<close> cancels it; both can be called in any state.
\<close>

datatype WaitingProcess = Stopped | Started

text \<open>
  Modelled from the spec: the Match Runner (\<open>process.py\<close> is not among the sources).
  The object keeps the constructor's arguments; \<open>start()\<close> and \<open>stop()\<close> set whether it
  runs, and \<open>get_scores()\<close> is answered by the environment.
\<close>

datatype MatchProcess =
  MatchProcess (mp_match: TempMatch) (mp_is_with_ai: bool) (mp_users: "MatchUser list")
    (mp_running: bool)

record Match =
  stage :: MatchStage
  match :: TempMatch
  room_name :: string
  is_with_ai :: bool
  users :: "MatchUser list"
  online :: "bool list"
  match_process :: "MatchProcess option"
  waiting_process :: WaitingProcess
  effects :: "effect list"
  logs :: "(log_level \<times> string) list"

subsection \<open>Python list indexing\<close>

text \<open>\<open>xs[i]\<close>: a negative index counts from the end, an index out of range raises.\<close>

definition py_index :: "'a list \<Rightarrow> int \<Rightarrow> 'a option" where
  "py_index xs i =
     (if 0 \<le> i \<and> i < int (length xs) then Some (xs ! nat i)
      else if i < 0 \<and> - int (length xs) \<le> i then Some (xs ! nat (int (length xs) + i))
      else None)"

text \<open>\<open>xs[i] = v\<close>, with the same convention.\<close>

definition py_store :: "'a list \<Rightarrow> int \<Rightarrow> 'a \<Rightarrow> 'a list option" where
  "py_store xs i v =
     (if 0 \<le> i \<and> i < int (length xs) then Some (xs[nat i := v])
      else if i < 0 \<and> - int (length xs) \<le> i then Some (xs[nat (int (length xs) + i) := v])
      else None)"

subsection \<open>Private methods\<close>

definition log :: "log_level \<Rightarrow> string \<Rightarrow> Match \<Rightarrow> Match" where
  "log lvl msg s = s\<lparr>logs := logs s @ [(lvl, msg)]\<rparr>"

definition emit :: "effect \<Rightarrow> Match \<Rightarrow> Match" where
  "emit e s = s\<lparr>effects := effects s @ [e]\<rparr>"

text \<open>\<open>Match.__init__\<close>; \<open>get_match_name\<close> is applied by the caller of the model.\<close>

definition Match_init :: "TempMatch \<Rightarrow> string \<Rightarrow> bool \<Rightarrow> Match" where
  "Match_init m name with_ai =
     \<lparr>stage = NOT_STARTED, match = m, room_name = name, is_with_ai = with_ai,
      users = [], online = [], match_process = None, waiting_process = Stopped,
      effects = [], logs = []\<rparr>"

definition set_stage_waiting :: "Match \<Rightarrow> Match" where
  "set_stage_waiting s = emit WaitingStart (s\<lparr>stage := WAITING, waiting_process := Started\<rparr>)"

definition set_stage_match :: "Match \<Rightarrow> Match" where
  "set_stage_match s =
     emit ProcessStart
       (s\<lparr>stage := MATCH,
          match_process := Some (MatchProcess (match s) (is_with_ai s) (users s) True)\<rparr>)"

definition waiting_stop :: "Match \<Rightarrow> Match" where
  "waiting_stop s = emit WaitingStop (s\<lparr>waiting_process := Stopped\<rparr>)"

definition process_stop :: "MatchProcess \<Rightarrow> Match \<Rightarrow> Match" where
  "process_stop p s =
     emit ProcessStop
       (s\<lparr>match_process :=
            Some (MatchProcess (mp_match p) (mp_is_with_ai p) (mp_users p) False)\<rparr>)"

text \<open>The loop of \<open>__get_user_idx\<close>, counting from \<open>i\<close>.\<close>

fun find_idx :: "int \<Rightarrow> MatchUser list \<Rightarrow> int \<Rightarrow> int" where
  "find_idx uid [] i = - 1"
| "find_idx uid (u # us) i = (if user_id u = uid then i else find_idx uid us (i + 1))"

definition get_user_idx :: "Match \<Rightarrow> MatchUser \<Rightarrow> int" where
  "get_user_idx s user = find_idx (user_id user) (users s) 0"

definition set_lose :: "int \<Rightarrow> Match \<Rightarrow> Match \<times> unit outcome" where
  "set_lose loser_idx s =
     (case py_index (users s) loser_idx of
        None \<Rightarrow> (s, Raised IndexError)
      | Some loser \<Rightarrow>
          ((emit (RoomUserDelete (user_id loser) (match_room_id (match s))) s)
             \<lparr>stage := FINISHED\<rparr>,
           Returned ()))"

text \<open>
  The parts of \<open>__set_win\<close>: the scores, the body \<open>json_obj\<close> of the report, the
  payload \<open>game_over_data\<close>, and the calls that the branch on \<open>winner_match\<close> makes.
\<close>

definition final_scores :: "env \<Rightarrow> Match \<Rightarrow> int \<times> int" where
  "final_scores ev s = (case match_process s of Some p \<Rightarrow> get_scores ev | None \<Rightarrow> (0, 0))"

definition result_json :: "env \<Rightarrow> int \<times> int \<Rightarrow> MatchUser \<Rightarrow> MatchUser \<Rightarrow> MatchUser \<Rightarrow> json_obj" where
  "result_json ev scores u0 u1 winner_user =
     \<lparr>player1_id = user_id u0, player1_score = fst scores,
      player2_id = user_id u1, player2_score = snd scores,
      winner_id = user_id winner_user,
      match_date = (case start_at ev of Some t \<Rightarrow> t | None \<Rightarrow> now ev),
      play_time = (case start_at ev of Some t \<Rightarrow> now ev - t | None \<Rightarrow> 0)\<rparr>"

definition game_over :: "int \<Rightarrow> int \<times> int \<Rightarrow> game_over_data" where
  "game_over winner_idx scores =
     \<lparr>winner = (if winner_idx = 0 then ''paddle1'' else ''paddle2''),
      paddle1 = fst scores, paddle2 = snd scores\<rparr>"

definition bracket_calls :: "TempMatch \<Rightarrow> MatchUser \<Rightarrow> effect list" where
  "bracket_calls m winner_user =
     (case winner_match m of
        Some next_id \<Rightarrow> [MatchUserCreate (user_id winner_user) next_id,
                         MatchDecided winner_user next_id]
      | None \<Rightarrow> [RoomUserDeleteAll (user_id winner_user), RoomDelete (match_room_name m)])"

definition bracket_logs :: "TempMatch \<Rightarrow> (log_level \<times> string) list" where
  "bracket_logs m =
     (case winner_match m of
        Some next_id \<Rightarrow> [(INFO, ''winner match id'')]
      | None \<Rightarrow> [(INFO, ''deleting winner id''), (INFO, ''Deleting match room name'')])"

definition set_win :: "env \<Rightarrow> int \<Rightarrow> Match \<Rightarrow> Match \<times> unit outcome" where
  "set_win ev winner_idx s =
     (case py_index (users s) winner_idx of
        None \<Rightarrow> (s, Raised IndexError)
      | Some winner_user \<Rightarrow>
      (case py_index (users s) (1 - winner_idx) of
        None \<Rightarrow> (s, Raised IndexError)
      | Some loser_user \<Rightarrow>
      (let s1 = log INFO ''winner match'' s;
           scores = final_scores ev s1
       in
       case py_index (users s1) 0 of
         None \<Rightarrow> (s1, Raised IndexError)
       | Some u0 \<Rightarrow>
       (case py_index (users s1) 1 of
         None \<Rightarrow> (s1, Raised IndexError)
       | Some u1 \<Rightarrow>
       (let obj = result_json ev scores u0 u1 winner_user;
            data = game_over winner_idx scores;
            s2 = emit (EmitGameOver data (room_name s1)) s1;
            s3 = emit (PostDashboard obj) s2;
            s4 = (if \<not> resp_ok ev then log ERROR ''resp is not ok'' s3 else s3);
            s5 = s4\<lparr>effects := effects s4 @ bracket_calls (match s4) winner_user,
                      logs := logs s4 @ bracket_logs (match s4)\<rparr>;
            s6 = emit (DeleteMatchId (match_id (match s5))) s5
        in (s6\<lparr>stage := FINISHED\<rparr>, Returned ()))))))"

definition set_win_and_lose :: "env \<Rightarrow> int \<Rightarrow> Match \<Rightarrow> Match \<times> unit outcome" where
  "set_win_and_lose ev winner_idx s =
     (let loser_idx = 1 - winner_idx;
          s1 = log INFO ''set win and lose'' s
      in case set_win ev winner_idx s1 of
           (s2, Raised e) \<Rightarrow> (s2, Raised e)
         | (s2, Returned _) \<Rightarrow>
        (case set_lose loser_idx s2 of
           (s3, Raised e) \<Rightarrow> (s3, Raised e)
         | (s3, Returned _) \<Rightarrow>
        (case py_index (users s3) loser_idx of
           None \<Rightarrow> (s3, Raised IndexError)
         | Some loser \<Rightarrow> (emit (SioDisconnect (sid loser)) s3, Returned ()))))"

subsection \<open>The six event handlers\<close>

definition user_decided :: "MatchUser \<Rightarrow> Match \<Rightarrow> Match \<times> bool outcome" where
  "user_decided user s =
     (let s1 = log INFO ''user is decided to be in room'' s in
      if length (users s1) \<ge> 2
      then (log INFO ''user could not be in room, because there already exists users'' s1,
            Returned False)
      else
        (let s2 = s1\<lparr>users := users s1 @ [user]\<rparr>;
             s3 = s2\<lparr>online := online s2 @ [False]\<rparr>
         in if length (users s3) = 2
            then (case py_index (online s3) 0 of
                    None \<Rightarrow> (s3, Raised IndexError)
                  | Some on0 \<Rightarrow>
                      if on0 then (set_stage_waiting s3, Returned True)
                      else (s3, Returned True))
            else (s3, Returned True)))"

definition user_connected :: "env \<Rightarrow> MatchUser \<Rightarrow> Match \<Rightarrow> Match \<times> bool outcome" where
  "user_connected ev user s =
     (let s0 = log INFO ''user is connected to room'' s;
          idx = get_user_idx s0 user
      in if idx = - 1
         then (log ERROR ''user is connected, but the user is not found'' s0, Returned False)
         else
         (case py_index (online s0) idx of
            None \<Rightarrow> (s0, Raised IndexError)
          | Some on_idx \<Rightarrow>
          if on_idx
          then (log ERROR ''user is connected, but the user is already connected'' s0,
                Returned True)
          else
          (let s1 = emit (EmitInit (if idx = 0 then ''paddle1'' else ''paddle2'') (sid user)) s0;
               s2 = emit (EnterRoom (sid user) (room_name s1)) s1
           in case py_store (users s2) idx user of
                None \<Rightarrow> (s2, Raised IndexError)
              | Some us \<Rightarrow>
              (let s3 = s2\<lparr>users := us\<rparr> in
               case py_store (online s3) idx True of
                 None \<Rightarrow> (s3, Raised IndexError)
               | Some os \<Rightarrow>
               (let s4 = s3\<lparr>online := os\<rparr> in
                if stage s4 = FINISHED
                then (case set_win ev idx
                             (log INFO ''user is connected, but the stage is marked as FINISHED'' s4) of
                        (s5, Raised e) \<Rightarrow> (s5, Raised e)
                      | (s5, Returned _) \<Rightarrow> (s5, Returned True))
                else if length (online s4) = 2
                then (case py_index (online s4) 0 of
                        None \<Rightarrow> (s4, Raised IndexError)
                      | Some on0 \<Rightarrow>
                        if \<not> on0 then (set_stage_waiting s4, Returned True)
                        else
                        (case py_index (online s4) 1 of
                           None \<Rightarrow> (s4, Raised IndexError)
                         | Some on1 \<Rightarrow>
                           if \<not> on1 then (set_stage_waiting s4, Returned True)
                           else (set_stage_match (waiting_stop s4), Returned True)))
                else (s4, Returned True))))))"

text \<open>
  \<open>ai_connected\<close> runs in two parts: lines 270 to 278 come before \<open>with self.lock\<close>,
  lines 280 to 287 are inside it.
\<close>

definition ai_connected_unguarded :: "env \<Rightarrow> string \<Rightarrow> Match \<Rightarrow> Match" where
  "ai_connected_unguarded ev ai_sid s =
     (let s1 = log INFO ''When AI is connected, users len''
                 (log INFO ''ai is connected!'' s);
          s2 = (if length (users s1) \<noteq> 1
                then log ERROR ''When AI is connected, self.users len is not 1!'' s1
                else s1);
          s3 = s2\<lparr>users := users s2 @ [\<lparr>is_ai = True, sid = ai_sid, user_id = AI_ID ev\<rparr>]\<rparr>
      in s3\<lparr>online := online s3 @ [True]\<rparr>)"

definition ai_connected_guarded :: "string \<Rightarrow> Match \<Rightarrow> Match" where
  "ai_connected_guarded ai_sid s =
     (let s1 = emit (EmitInit ''paddle2'' ai_sid) s;
          s2 = emit (EnterRoom ai_sid (room_name s1)) s1;
          s3 = waiting_stop (log INFO ''waiting process stop'' s2)
      in set_stage_match (log INFO ''match process start'' s3))"

definition ai_connected :: "env \<Rightarrow> string \<Rightarrow> Match \<Rightarrow> Match \<times> unit outcome" where
  "ai_connected ev ai_sid s =
     (ai_connected_guarded ai_sid (ai_connected_unguarded ev ai_sid s), Returned ())"

definition timed_out :: "env \<Rightarrow> Match \<Rightarrow> Match \<times> unit outcome" where
  "timed_out ev s =
     (let s0 = log INFO ''Match - timed out'' s in
      if stage s0 \<noteq> WAITING then (s0, Returned ())
      else
      (let s1 = (if length (users s0) \<noteq> 2
                 then log ERROR ''stage is WAITING, but the len of users is not 2'' s0
                 else s0)
       in case py_index (online s1) 0 of
            None \<Rightarrow> (s1, Raised IndexError)
          | Some on0 \<Rightarrow>
          (if on0
           then (case py_index (online s1) 1 of
                   None \<Rightarrow> (s1, Raised IndexError)
                 | Some on1 \<Rightarrow>
                     if on1 then (s1, Returned ())
                     else set_win_and_lose ev 0 (s1\<lparr>stage := FINISHED\<rparr>))
           else set_win_and_lose ev 1 (s1\<lparr>stage := FINISHED\<rparr>))))"

definition user_disconnected :: "env \<Rightarrow> MatchUser \<Rightarrow> Match \<Rightarrow> Match \<times> unit outcome" where
  "user_disconnected ev user s =
     (let s0 = log INFO ''user is disconnected'' s in
      if stage s0 = NOT_STARTED \<or> stage s0 = FINISHED
      then (log INFO ''but user is disconnected!'' s0, Returned ())
      else if stage s0 = WAITING
      then
        (let idx = get_user_idx s0 user in
         if idx = - 1
         then (log INFO ''user is disconnected, but user could not be found in match'' s0,
               Returned ())
         else
         (case py_index (online s0) idx of
            None \<Rightarrow> (s0, Raised IndexError)
          | Some on_idx \<Rightarrow>
              if on_idx then set_lose idx ((waiting_stop s0)\<lparr>stage := FINISHED\<rparr>)
              else (s0, Returned ())))
      else if stage s0 = MATCH
      then
        (case match_process s0 of
           None \<Rightarrow> (s0, Raised AssertionError)
         | Some p \<Rightarrow>
           (let loser_idx = get_user_idx s0 user;
                s1 = process_stop p s0;
                s2 = s1\<lparr>stage := FINISHED\<rparr>
            in case set_lose loser_idx s2 of
                 (s3, Raised e) \<Rightarrow> (s3, Raised e)
               | (s3, Returned _) \<Rightarrow> set_win ev (1 - loser_idx) s3))
      else (s0, Returned ()))"

definition alert_winner :: "env \<Rightarrow> int \<Rightarrow> Match \<Rightarrow> Match \<times> unit outcome" where
  "alert_winner ev winner_idx s =
     (if stage s = FINISHED
      then (log INFO ''self.stage is already FINISHED, returning alert_winner'' s, Returned ())
      else set_win_and_lose ev winner_idx
             ((log INFO ''self.stage is not FINISHED, setting FINISHED and set win and lose'' s)
                \<lparr>stage := FINISHED\<rparr>))"

subsection \<open>Sequences of events\<close>

datatype event =
    Decide MatchUser
  | Connect MatchUser
  | AiJoin string
  | Disconnect MatchUser
  | TimerFire
  | RunnerConcluded int

text \<open>The state a handler leaves behind, whether it returned or raised.\<close>

fun handle :: "env \<Rightarrow> event \<Rightarrow> Match \<Rightarrow> Match" where
  "handle ev (Decide u) s = fst (user_decided u s)"
| "handle ev (Connect u) s = fst (user_connected ev u s)"
| "handle ev (AiJoin a) s = fst (ai_connected ev a s)"
| "handle ev (Disconnect u) s = fst (user_disconnected ev u s)"
| "handle ev TimerFire s = fst (timed_out ev s)"
| "handle ev (RunnerConcluded w) s = fst (alert_winner ev w s)"

fun exec :: "(env \<times> event) list \<Rightarrow> Match \<Rightarrow> Match" where
  "exec [] s = s"
| "exec ((ev, e) # es) s = exec es (handle ev e s)"

text \<open>The stage before the first event and after each event.\<close>

fun stage_trace :: "(env \<times> event) list \<Rightarrow> Match \<Rightarrow> MatchStage list" where
  "stage_trace [] s = [stage s]"
| "stage_trace ((ev, e) # es) s = stage s # stage_trace es (handle ev e s)"

text \<open>
  What each event relies on in its caller: the game process calls \<open>alert_winner\<close>, so it
  exists by then, and the message of \<open>ai_connected\<close> names the number of users it expects.
  A sequence of events is regular when every event finds this.
\<close>

fun permitted :: "Match \<Rightarrow> event \<Rightarrow> bool" where
  "permitted s (AiJoin a) = (length (users s) = 1)"
| "permitted s (RunnerConcluded w) = (match_process s \<noteq> None)"
| "permitted s e = True"

fun regular :: "(env \<times> event) list \<Rightarrow> Match \<Rightarrow> bool" where
  "regular [] s = True"
| "regular ((ev, e) # es) s = (permitted s e \<and> regular es (handle ev e s))"

text \<open>Seat \<open>i\<close> is bound and its flag in \<open>online\<close> is set.\<close>

definition seat_online :: "Match \<Rightarrow> int \<Rightarrow> bool" where
  "seat_online s i = (py_index (online s) i = Some True)"

text \<open>The identity \<open>uid\<close> is found in a seat by \<open>__get_user_idx\<close>, and that seat is online.\<close>

definition joined :: "Match \<Rightarrow> int \<Rightarrow> bool" where
  "joined s uid = (find_idx uid (users s) 0 \<noteq> - 1 \<and> seat_online s (find_idx uid (users s) 0))"

text \<open>What \<open>user_connected\<close> does for a seat that is online already.\<close>

definition duplicate_connect :: "Match \<Rightarrow> Match \<times> bool outcome" where
  "duplicate_connect s =
     (log ERROR ''user is connected, but the user is already connected''
        (log INFO ''user is connected to room'' s),
      Returned True)"

text \<open>
  The two lists grow together, and the stage \<open>WAITING\<close> is only entered with two seats.
\<close>

definition seats_ok :: "Match \<Rightarrow> bool" where
  "seats_ok s =
     (length (online s) = length (users s) \<and> (stage s \<noteq> WAITING \<or> length (users s) = 2))"

text \<open>
  What holds along a regular sequence of events: at most two seats, two seats as soon as
  the stage has left \<open>NOT_STARTED\<close> or a game process exists, and seat 1 online in stage
  \<open>MATCH\<close>.
\<close>

definition reg_ok :: "Match \<Rightarrow> bool" where
  "reg_ok s =
     (length (online s) = length (users s) \<and> length (users s) \<le> 2 \<and>
      (stage s = NOT_STARTED \<or> length (users s) = 2) \<and>
      (match_process s = None \<or> length (users s) = 2) \<and>
      (stage s \<noteq> MATCH \<or> seat_online s 1))"

subsection \<open>Concrete sessions\<close>

definition env_ok :: env where
  "env_ok = \<lparr>now = 100, start_at = None, get_scores = (0, 0), resp_ok = True, AI_ID = 0\<rparr>"

definition env_down :: env where
  "env_down = \<lparr>now = 100, start_at = None, get_scores = (0, 0), resp_ok = False, AI_ID = 0\<rparr>"

definition env_scored :: env where
  "env_scored = \<lparr>now = 100, start_at = Some 40, get_scores = (11, 7), resp_ok = True, AI_ID = 0\<rparr>"

definition alice :: MatchUser where
  "alice = \<lparr>is_ai = False, sid = ''sid-a'', user_id = 1\<rparr>"

definition bob :: MatchUser where
  "bob = \<lparr>is_ai = False, sid = ''sid-b'', user_id = 2\<rparr>"

definition carol :: MatchUser where
  "carol = \<lparr>is_ai = False, sid = ''sid-c'', user_id = 3\<rparr>"

definition final_match :: TempMatch where
  "final_match = \<lparr>match_id = 7, winner_match = None, match_room_id = 5, match_room_name = ''room''\<rparr>"

definition fresh :: Match where
  "fresh = Match_init final_match ''match_7'' False"

definition fresh_ai :: Match where
  "fresh_ai = Match_init final_match ''match_7'' True"

text \<open>Both players decided, nobody connected yet; only the first connected; both connected.\<close>

definition both_decided :: Match where
  "both_decided = exec [(env_ok, Decide alice), (env_ok, Decide bob)] fresh"

definition alice_waiting :: Match where
  "alice_waiting = handle env_ok (Connect alice) both_decided"

definition playing :: Match where
  "playing = handle env_ok (Connect bob) alice_waiting"

text \<open>The first player left while the second had not connected yet.\<close>

definition alice_left :: Match where
  "alice_left = handle env_ok (Disconnect alice) alice_waiting"

text \<open>A match whose winner advances to match 8, with only the first player connected.\<close>

definition semi_match :: TempMatch where
  "semi_match = \<lparr>match_id = 7, winner_match = Some 8, match_room_id = 5, match_room_name = ''room''\<rparr>"

definition semi_waiting :: Match where
  "semi_waiting =
     exec [(env_ok, Decide alice), (env_ok, Decide bob), (env_ok, Connect alice)]
       (Match_init semi_match ''match_7'' False)"

section \<open>Properties\<close>

subsection \<open>List indexing\<close>

lemma py_index_both: "py_index xs i = Some a \<Longrightarrow> py_index xs (1 - i) = Some b \<Longrightarrow> 2 \<le> length xs"
  by (auto simp: py_index_def split: if_splits)

lemma py_store_length: "py_store xs i v = Some ys \<Longrightarrow> length ys = length xs"
  by (auto simp: py_store_def split: if_splits)

subsection \<open>What the private methods return and leave unchanged\<close>

lemma set_win_returned:
  assumes "py_index (users s) i = Some w" and "py_index (users s) (1 - i) = Some l"
  shows "set_win ev i s =
    (s\<lparr>stage := FINISHED,
       effects := effects s @
         [EmitGameOver (game_over i (final_scores ev s)) (room_name s),
          PostDashboard (result_json ev (final_scores ev s) (users s ! 0) (users s ! 1) w)] @
         bracket_calls (match s) w @ [DeleteMatchId (match_id (match s))],
       logs := logs s @ [(INFO, ''winner match'')] @
         (if resp_ok ev then [] else [(ERROR, ''resp is not ok'')]) @ bracket_logs (match s)\<rparr>,
     Returned ())"
proof -
  have len: "2 \<le> length (users s)" using assms by (rule py_index_both)
  then have u0: "py_index (users s) 0 = Some (users s ! 0)"
    and u1: "py_index (users s) 1 = Some (users s ! 1)"
    by (auto simp: py_index_def)
  show ?thesis
    using assms u0 u1 by (simp add: set_win_def Let_def log_def emit_def final_scores_def)
qed

lemma set_win_raised:
  assumes "py_index (users s) i = None \<or> py_index (users s) (1 - i) = None"
  shows "set_win ev i s = (s, Raised IndexError)"
  using assms by (auto simp: set_win_def split: option.splits)

lemma set_win_frame:
  assumes "set_win ev i s = (s', r)"
  shows "users s' = users s \<and> online s' = online s \<and> match_process s' = match_process s \<and>
         match s' = match s \<and> (stage s' = stage s \<or> stage s' = FINISHED)"
proof (cases "py_index (users s) i = None \<or> py_index (users s) (1 - i) = None")
  case True
  from set_win_raised[OF this, of ev] assms show ?thesis by simp
next
  case False
  then obtain w l where "py_index (users s) i = Some w" "py_index (users s) (1 - i) = Some l" by auto
  from set_win_returned[OF this, of ev] assms show ?thesis by auto
qed

lemma set_lose_frame:
  assumes "set_lose i s = (s', r)"
  shows "users s' = users s \<and> online s' = online s \<and> match_process s' = match_process s \<and>
         match s' = match s \<and> (stage s' = stage s \<or> stage s' = FINISHED)"
  using assms by (cases "py_index (users s) i") (auto simp: set_lose_def emit_def)

lemma set_win_and_lose_frame:
  assumes "set_win_and_lose ev i s = (s', r)"
  shows "users s' = users s \<and> online s' = online s \<and> match_process s' = match_process s \<and>
         match s' = match s \<and> (stage s' = stage s \<or> stage s' = FINISHED)"
  using assms
  by (auto simp: set_win_and_lose_def Let_def log_def emit_def
           split: prod.splits outcome.splits option.splits
           dest!: set_win_frame set_lose_frame)


lemma set_win_fst [simp]:
  "users (fst (set_win ev i s)) = users s"
  "online (fst (set_win ev i s)) = online s"
  "match_process (fst (set_win ev i s)) = match_process s"
  "match (fst (set_win ev i s)) = match s"
  using set_win_frame[of ev i s "fst (set_win ev i s)" "snd (set_win ev i s)"] by simp_all

lemma set_win_stage:
  "stage (fst (set_win ev i s)) = stage s \<or> stage (fst (set_win ev i s)) = FINISHED"
  using set_win_frame[of ev i s "fst (set_win ev i s)" "snd (set_win ev i s)"] by simp

lemma set_lose_fst [simp]:
  "users (fst (set_lose i s)) = users s"
  "online (fst (set_lose i s)) = online s"
  "match_process (fst (set_lose i s)) = match_process s"
  "match (fst (set_lose i s)) = match s"
  using set_lose_frame[of i s "fst (set_lose i s)" "snd (set_lose i s)"] by simp_all

lemma set_lose_stage:
  "stage (fst (set_lose i s)) = stage s \<or> stage (fst (set_lose i s)) = FINISHED"
  using set_lose_frame[of i s "fst (set_lose i s)" "snd (set_lose i s)"] by simp

lemma set_win_and_lose_fst [simp]:
  "users (fst (set_win_and_lose ev i s)) = users s"
  "online (fst (set_win_and_lose ev i s)) = online s"
  "match_process (fst (set_win_and_lose ev i s)) = match_process s"
  "match (fst (set_win_and_lose ev i s)) = match s"
  using set_win_and_lose_frame[of ev i s "fst (set_win_and_lose ev i s)" "snd (set_win_and_lose ev i s)"]
  by simp_all

lemma set_win_and_lose_stage:
  "stage (fst (set_win_and_lose ev i s)) = stage s \<or> stage (fst (set_win_and_lose ev i s)) = FINISHED"
  using set_win_and_lose_frame[of ev i s "fst (set_win_and_lose ev i s)" "snd (set_win_and_lose ev i s)"]
  by simp

subsection \<open>An invariant of every sequence of events\<close>

lemma seats_ok_init: "seats_ok (Match_init m name with_ai)"
  by (simp add: seats_ok_def Match_init_def)

lemma seats_ok_user_decided: "seats_ok s \<Longrightarrow> seats_ok (fst (user_decided u s))"
  by (auto simp: seats_ok_def user_decided_def Let_def log_def set_stage_waiting_def emit_def
           split: option.splits)

lemma seats_ok_ai_connected: "seats_ok s \<Longrightarrow> seats_ok (fst (ai_connected ev a s))"
  by (simp add: seats_ok_def ai_connected_def ai_connected_guarded_def ai_connected_unguarded_def
                Let_def log_def set_stage_match_def waiting_stop_def emit_def)

lemma seats_ok_finished:
  "length (online s') = length (users s') \<Longrightarrow> stage s' = FINISHED \<Longrightarrow> seats_ok s'"
  by (simp add: seats_ok_def)

lemma seats_ok_timed_out: "seats_ok s \<Longrightarrow> seats_ok (fst (timed_out ev s))"
  using set_win_and_lose_stage[of ev 0 "(log INFO ''Match - timed out'' s)\<lparr>stage := FINISHED\<rparr>"]
        set_win_and_lose_stage[of ev 1 "(log INFO ''Match - timed out'' s)\<lparr>stage := FINISHED\<rparr>"]
  by (auto simp: seats_ok_def timed_out_def Let_def log_def split: option.splits)

lemma seats_ok_alert_winner: "seats_ok s \<Longrightarrow> seats_ok (fst (alert_winner ev w s))"
  using set_win_and_lose_stage[of ev w "(log INFO ''self.stage is not FINISHED, setting FINISHED and set win and lose'' s)\<lparr>stage := FINISHED\<rparr>"]
  by (auto simp: seats_ok_def alert_winner_def log_def)

lemma fst_reraise [simp]:
  "fst (case p of (s, Returned x) \<Rightarrow> (s, Returned y) | (s, Raised e) \<Rightarrow> (s, Raised e)) = fst p"
  by (cases p) (auto split: outcome.splits)

lemma set_win_finished [simp]: "stage s = FINISHED \<Longrightarrow> stage (fst (set_win ev i s)) = FINISHED"
  using set_win_stage[of ev i s] by auto

lemma set_lose_finished [simp]: "stage s = FINISHED \<Longrightarrow> stage (fst (set_lose i s)) = FINISHED"
  using set_lose_stage[of i s] by auto

lemmas connect_simps = user_connected_def Let_def log_def emit_def get_user_idx_def
  set_stage_waiting_def set_stage_match_def waiting_stop_def

lemma seats_ok_user_connected:
  assumes "seats_ok s"
  shows "seats_ok (fst (user_connected ev u s))"
proof -
  let ?idx = "find_idx (user_id u) (users s) 0"
  consider (nf) "?idx = - 1"
    | (noidx) "?idx \<noteq> - 1" "py_index (online s) ?idx = None"
    | (dup) "?idx \<noteq> - 1" "py_index (online s) ?idx = Some True"
    | (new) "?idx \<noteq> - 1" "py_index (online s) ?idx = Some False"
    by (cases "py_index (online s) ?idx") auto
  then show ?thesis
  proof cases
    case nf
    with assms show ?thesis by (simp add: connect_simps seats_ok_def)
  next
    case noidx
    with assms show ?thesis by (simp add: connect_simps seats_ok_def)
  next
    case dup
    with assms show ?thesis by (simp add: connect_simps seats_ok_def)
  next
    case new
    show ?thesis
    proof (cases "py_store (users s) ?idx u")
      case None
      with new assms show ?thesis by (simp add: connect_simps seats_ok_def)
    next
      case us: (Some us)
      then have lus: "length us = length (users s)" by (rule py_store_length)
      show ?thesis
      proof (cases "py_store (online s) ?idx True")
        case None
        with new us lus assms show ?thesis by (simp add: connect_simps seats_ok_def)
      next
        case os: (Some os)
        then have los: "length os = length (online s)" by (rule py_store_length)
        from new us os lus los assms show ?thesis
          by (simp add: connect_simps seats_ok_def split: option.split)
      qed
    qed
  qed
qed

lemmas disconnect_simps = user_disconnected_def Let_def log_def emit_def get_user_idx_def
  waiting_stop_def process_stop_def

lemma seats_ok_user_disconnected:
  assumes "seats_ok s"
  shows "seats_ok (fst (user_disconnected ev u s))"
proof (cases "stage s")
  case NOT_STARTED
  with assms show ?thesis by (simp add: disconnect_simps seats_ok_def)
next
  case FINISHED
  with assms show ?thesis by (simp add: disconnect_simps seats_ok_def)
next
  case WAITING
  let ?idx = "find_idx (user_id u) (users s) 0"
  let ?s1 = "(waiting_stop (log INFO ''user is disconnected'' s))\<lparr>stage := FINISHED\<rparr>"
  have "stage (fst (set_lose ?idx ?s1)) = FINISHED" by simp
  with WAITING assms show ?thesis
    by (simp add: disconnect_simps seats_ok_def split: option.split)
next
  case MATCH
  show ?thesis
  proof (cases "match_process s")
    case None
    with MATCH assms show ?thesis by (simp add: disconnect_simps seats_ok_def)
  next
    case (Some p)
    let ?idx = "find_idx (user_id u) (users s) 0"
    let ?s2 = "(process_stop p (log INFO ''user is disconnected'' s))\<lparr>stage := FINISHED\<rparr>"
    have fin: "stage (fst (set_lose ?idx ?s2)) = FINISHED" by simp
    obtain s3 r where sl: "set_lose ?idx ?s2 = (s3, r)" by (cases "set_lose ?idx ?s2")
    from set_lose_frame[OF sl] fin sl
    have s3: "users s3 = users s" "online s3 = online s" "stage s3 = FINISHED"
      by (simp_all add: process_stop_def log_def emit_def)
    have "stage (fst (set_win ev (1 - ?idx) s3)) = FINISHED" using s3 by simp
    with s3 sl MATCH Some assms show ?thesis
      by (cases r) (simp_all add: disconnect_simps seats_ok_def)
  qed
qed

lemma seats_ok_handle: "seats_ok s \<Longrightarrow> seats_ok (handle ev e s)"
  by (cases e)
     (simp_all add: seats_ok_user_decided seats_ok_user_connected seats_ok_ai_connected
        seats_ok_timed_out seats_ok_user_disconnected seats_ok_alert_winner)

lemma seats_ok_exec: "seats_ok s \<Longrightarrow> seats_ok (exec es s)"
  by (induction es arbitrary: s) (auto simp: seats_ok_handle)

subsection \<open>Evaluation of the concrete sessions\<close>

lemmas fixture_defs = env_ok_def env_down_def env_scored_def alice_def bob_def carol_def final_match_def
  fresh_def fresh_ai_def Match_init_def

lemmas model_defs = user_decided_def user_connected_def timed_out_def user_disconnected_def alert_winner_def
    ai_connected_def ai_connected_guarded_def ai_connected_unguarded_def
    set_win_and_lose_def set_win_def set_lose_def log_def emit_def py_index_def py_store_def get_user_idx_def
    set_stage_waiting_def set_stage_match_def waiting_stop_def process_stop_def
    final_scores_def result_json_def game_over_def bracket_calls_def bracket_logs_def Let_def

lemma both_decided_state:
  "both_decided =
     \<lparr>stage = NOT_STARTED, match = final_match, room_name = ''match_7'', is_with_ai = False,
      users = [alice, bob], online = [False, False], match_process = None,
      waiting_process = Stopped, effects = [],
      logs = [(INFO, ''user is decided to be in room''), (INFO, ''user is decided to be in room'')]\<rparr>"
  by (simp add: both_decided_def fresh_def Match_init_def user_decided_def log_def py_index_def Let_def)

lemma alice_waiting_state:
  "alice_waiting =
     \<lparr>stage = WAITING, match = final_match, room_name = ''match_7'', is_with_ai = False,
      users = [alice, bob], online = [True, False], match_process = None,
      waiting_process = Started,
      effects = [EmitInit ''paddle1'' ''sid-a'', EnterRoom ''sid-a'' ''match_7'', WaitingStart],
      logs = [(INFO, ''user is decided to be in room''), (INFO, ''user is decided to be in room''),
              (INFO, ''user is connected to room'')]\<rparr>"
  by (simp add: alice_waiting_def both_decided_state model_defs alice_def bob_def)

lemma playing_state:
  "playing =
     \<lparr>stage = MATCH, match = final_match, room_name = ''match_7'', is_with_ai = False,
      users = [alice, bob], online = [True, True],
      match_process = Some (MatchProcess final_match False [alice, bob] True),
      waiting_process = Stopped,
      effects = [EmitInit ''paddle1'' ''sid-a'', EnterRoom ''sid-a'' ''match_7'', WaitingStart,
                 EmitInit ''paddle2'' ''sid-b'', EnterRoom ''sid-b'' ''match_7'', WaitingStop,
                 ProcessStart],
      logs = [(INFO, ''user is decided to be in room''), (INFO, ''user is decided to be in room''),
              (INFO, ''user is connected to room''), (INFO, ''user is connected to room'')]\<rparr>"
  by (simp add: playing_def alice_waiting_state model_defs alice_def bob_def)

text \<open>
  C1. The claim: at most one terminal resolution per session, \<open>__set_win\<close> for at most one
  seat. The code at the events decide(alice), decide(bob), connect(alice), timer-fire,
  connect(bob): the timer resolves seat 0 as winner and seat 1 as loser and the stage is
  \<open>FINISHED\<close>; the late connect of the loser then runs \<open>__set_win\<close> for seat 1, so the
  game-over message, the report, the room deletion and the registry removal are issued a
  second time, with the other seat as winner.
\<close>

theorem C1_loser_credited_after_timeout:
  "stage (handle env_ok TimerFire alice_waiting) = FINISHED \<and>
   effects (exec [(env_ok, TimerFire), (env_ok, Connect bob)] alice_waiting) =
     effects alice_waiting @
     [EmitGameOver \<lparr>winner = ''paddle1'', paddle1 = 0, paddle2 = 0\<rparr> ''match_7'',
      PostDashboard \<lparr>player1_id = 1, player1_score = 0, player2_id = 2, player2_score = 0,
                     winner_id = 1, match_date = 100, play_time = 0\<rparr>,
      RoomUserDeleteAll 1, RoomDelete ''room'', DeleteMatchId 7,
      RoomUserDelete 2 5, SioDisconnect ''sid-b'',
      EmitInit ''paddle2'' ''sid-b'', EnterRoom ''sid-b'' ''match_7'',
      EmitGameOver \<lparr>winner = ''paddle2'', paddle1 = 0, paddle2 = 0\<rparr> ''match_7'',
      PostDashboard \<lparr>player1_id = 1, player1_score = 0, player2_id = 2, player2_score = 0,
                     winner_id = 2, match_date = 100, play_time = 0\<rparr>,
      RoomUserDeleteAll 2, RoomDelete ''room'', DeleteMatchId 7]"
  by (simp add: alice_waiting_state model_defs fixture_defs)

text \<open>
  C2. The claim: the stage never moves backward and \<open>FINISHED\<close> is terminal. The code:
  \<open>ai_connected\<close> sets the stage to \<open>MATCH\<close> whatever it was, and \<open>user_decided\<close> sets it to
  \<open>WAITING\<close> whatever it was. When the AI joins before the player is decided the stage
  goes from \<open>MATCH\<close> back to \<open>WAITING\<close>; when the AI joins a second time after the match
  is over the stage goes from \<open>FINISHED\<close> back to \<open>MATCH\<close>.
\<close>

theorem C2_stage_moves_backward:
  "stage_trace [(env_ok, AiJoin ''sid-x''), (env_ok, Decide alice)] fresh_ai =
     [NOT_STARTED, MATCH, WAITING] \<and>
   stage_trace [(env_ok, Decide alice), (env_ok, Connect alice), (env_ok, AiJoin ''sid-x''),
                (env_ok, Disconnect alice), (env_ok, AiJoin ''sid-y'')] fresh_ai =
     [NOT_STARTED, NOT_STARTED, NOT_STARTED, MATCH, FINISHED, MATCH]"
  by (simp add: model_defs fixture_defs)

text \<open>
  C3. The claim: a disconnect of an identity that holds no seat changes nothing and raises
  nothing, also in stage \<open>MATCH\<close>. The code in stage \<open>MATCH\<close>, for carol who holds no seat:
  \<open>__get_user_idx\<close> gives \<open>-1\<close>, the game process is stopped, the stage becomes
  \<open>FINISHED\<close>, \<open>__set_lose(-1)\<close> deletes the room membership of the last seat (bob), and
  \<open>__set_win(2)\<close> raises \<open>IndexError\<close>, which leaves the handler.
\<close>

theorem C3_unknown_disconnect_in_match:
  "stage playing = MATCH \<and> get_user_idx playing carol = - 1 \<and>
   snd (user_disconnected env_ok carol playing) = Raised IndexError \<and>
   stage (fst (user_disconnected env_ok carol playing)) = FINISHED \<and>
   match_process (fst (user_disconnected env_ok carol playing)) =
     Some (MatchProcess final_match False [alice, bob] False) \<and>
   effects (fst (user_disconnected env_ok carol playing)) =
     effects playing @ [ProcessStop, RoomUserDelete 2 5]"
  by (simp add: playing_state model_defs fixture_defs)

text \<open>
  C5. The claim: without a next match, \<open>__set_win\<close> also disconnects the winner's
  transport session. The code, when the game process reports seat 0 as winner with the
  scores 11 and 7: the game-over message, the report, the deletion of the room and the
  registry removal are issued, and the only call of \<open>sio_disconnect\<close> is for the loser.
\<close>

theorem C5_winner_not_disconnected:
  "winner_match (match playing) = None \<and>
   snd (alert_winner env_scored 0 playing) = Returned () \<and>
   effects (fst (alert_winner env_scored 0 playing)) =
     effects playing @
     [EmitGameOver \<lparr>winner = ''paddle1'', paddle1 = 11, paddle2 = 7\<rparr> ''match_7'',
      PostDashboard \<lparr>player1_id = 1, player1_score = 11, player2_id = 2, player2_score = 7,
                     winner_id = 1, match_date = 40, play_time = 60\<rparr>,
      RoomUserDeleteAll 1, RoomDelete ''room'', DeleteMatchId 7,
      RoomUserDelete 2 5, SioDisconnect ''sid-b''] \<and>
   SioDisconnect (sid alice) \<notin> set (effects (fst (alert_winner env_scored 0 playing)))"
  by (simp add: playing_state model_defs fixture_defs)

text \<open>
  C7. The claim: never more than two seats, also across ai-join. The code: \<open>ai_connected\<close>
  logs an error when the number of users is not 1 and appends the AI all the same, so a
  session with two seats gets a third one, and a second ai-join adds a second AI.
\<close>

theorem C7_third_seat_by_ai_join:
  "length (users both_decided) = 2 \<and>
   ai_connected env_ok ''sid-x'' both_decided =
     (handle env_ok (AiJoin ''sid-x'') both_decided, Returned ()) \<and>
   users (handle env_ok (AiJoin ''sid-x'') both_decided) =
     [alice, bob, \<lparr>is_ai = True, sid = ''sid-x'', user_id = 0\<rparr>] \<and>
   online (handle env_ok (AiJoin ''sid-x'') both_decided) = [False, False, True] \<and>
   users (exec [(env_ok, Decide alice), (env_ok, AiJoin ''sid-x''), (env_ok, AiJoin ''sid-y'')]
            fresh_ai) =
     [alice, \<lparr>is_ai = True, sid = ''sid-x'', user_id = 0\<rparr>,
      \<lparr>is_ai = True, sid = ''sid-y'', user_id = 0\<rparr>]"
  by (simp add: both_decided_state model_defs fixture_defs)

text \<open>
  C9. The claim: every handler reads and writes the session only while it holds the lock.
  The code: \<open>ai_connected\<close> appends to \<open>users\<close> and \<open>online\<close> before it takes the lock.
  A \<open>user_connected\<close> that runs between the two parts finds the AI seated and online while
  the stage is still \<open>NOT_STARTED\<close>, and starts the game process itself; the locked part
  of \<open>ai_connected\<close> then starts a second one. The calls made differ from those of both
  orders in which the two handlers run one after the other.
\<close>

theorem C9_ai_join_writes_outside_guard:
  "users (ai_connected_unguarded env_ok ''sid-x'' (handle env_ok (Decide alice) fresh_ai)) =
     [alice, \<lparr>is_ai = True, sid = ''sid-x'', user_id = 0\<rparr>] \<and>
   online (ai_connected_unguarded env_ok ''sid-x'' (handle env_ok (Decide alice) fresh_ai)) =
     [False, True] \<and>
   stage (ai_connected_unguarded env_ok ''sid-x'' (handle env_ok (Decide alice) fresh_ai)) =
     NOT_STARTED \<and>
   effects (ai_connected_guarded ''sid-x''
      (handle env_ok (Connect alice)
         (ai_connected_unguarded env_ok ''sid-x'' (handle env_ok (Decide alice) fresh_ai)))) =
     [EmitInit ''paddle1'' ''sid-a'', EnterRoom ''sid-a'' ''match_7'', WaitingStop, ProcessStart,
      EmitInit ''paddle2'' ''sid-x'', EnterRoom ''sid-x'' ''match_7'', WaitingStop, ProcessStart] \<and>
   effects (exec [(env_ok, Decide alice), (env_ok, Connect alice), (env_ok, AiJoin ''sid-x'')]
              fresh_ai) =
     [EmitInit ''paddle1'' ''sid-a'', EnterRoom ''sid-a'' ''match_7'',
      EmitInit ''paddle2'' ''sid-x'', EnterRoom ''sid-x'' ''match_7'', WaitingStop, ProcessStart] \<and>
   effects (exec [(env_ok, Decide alice), (env_ok, AiJoin ''sid-x''), (env_ok, Connect alice)]
              fresh_ai) =
     [EmitInit ''paddle2'' ''sid-x'', EnterRoom ''sid-x'' ''match_7'', WaitingStop, ProcessStart,
      EmitInit ''paddle1'' ''sid-a'', EnterRoom ''sid-a'' ''match_7'', WaitingStop, ProcessStart]"
  by (simp add: model_defs fixture_defs)

subsection \<open>Resolution by the waiting timer and by \<open>__set_win\<close>\<close>

lemma set_lose_returned:
  "py_index (users s) i = Some l \<Longrightarrow>
   set_lose i s =
     (s\<lparr>stage := FINISHED,
        effects := effects s @ [RoomUserDelete (user_id l) (match_room_id (match s))]\<rparr>,
      Returned ())"
  by (simp add: set_lose_def emit_def)

lemma log_fields [simp]:
  "users (log lv msg s) = users s" "online (log lv msg s) = online s"
  "stage (log lv msg s) = stage s" "match (log lv msg s) = match s"
  "match_process (log lv msg s) = match_process s" "room_name (log lv msg s) = room_name s"
  "effects (log lv msg s) = effects s" "waiting_process (log lv msg s) = waiting_process s"
  by (simp_all add: log_def)

lemma set_win_and_lose_pair:
  assumes "users s = [u0, u1]" and "i = 0 \<or> i = 1"
  shows "set_win_and_lose ev i s =
    (s\<lparr>stage := FINISHED,
       effects := effects s @
         [EmitGameOver (game_over i (final_scores ev s)) (room_name s),
          PostDashboard (result_json ev (final_scores ev s) u0 u1 ([u0, u1] ! nat i))] @
         bracket_calls (match s) ([u0, u1] ! nat i) @
         [DeleteMatchId (match_id (match s)),
          RoomUserDelete (user_id ([u0, u1] ! nat (1 - i))) (match_room_id (match s)),
          SioDisconnect (sid ([u0, u1] ! nat (1 - i)))],
       logs := logs s @ [(INFO, ''set win and lose''), (INFO, ''winner match'')] @
         (if resp_ok ev then [] else [(ERROR, ''resp is not ok'')]) @ bracket_logs (match s)\<rparr>,
     Returned ())"
proof -
  let ?s1 = "log INFO ''set win and lose'' s"
  have w: "py_index (users ?s1) i = Some ([u0, u1] ! nat i)"
    and l: "py_index (users ?s1) (1 - i) = Some ([u0, u1] ! nat (1 - i))"
    using assms by (auto simp: py_index_def)
  have l': "py_index [u0, u1] (1 - i) = Some ([u0, u1] ! nat (1 - i))"
    using assms(2) by (auto simp: py_index_def)
  have fs: "final_scores ev ?s1 = final_scores ev s"
    by (simp add: final_scores_def)
  show ?thesis
    apply (simp add: set_win_and_lose_def Let_def set_win_returned[OF w l] fs)
    apply (simp add: set_lose_def assms(1) l' emit_def)
    apply (simp add: log_def)
    done
qed

lemma two_elements: "length xs = 2 \<Longrightarrow> xs = [xs ! 0, xs ! 1]"
  by (cases xs; cases "tl xs") auto

lemma timed_out_two_seats:
  assumes "stage s = WAITING" and "length (users s) = 2" and "length (online s) = 2"
  shows "timed_out ev s =
    (if online s ! 0 \<and> online s ! 1 then (log INFO ''Match - timed out'' s, Returned ())
     else set_win_and_lose ev (if online s ! 0 then 0 else 1)
            ((log INFO ''Match - timed out'' s)\<lparr>stage := FINISHED\<rparr>))"
proof -
  have "py_index (online s) 0 = Some (online s ! 0)" "py_index (online s) 1 = Some (online s ! 1)"
    using assms(3) by (simp_all add: py_index_def)
  with assms(1,2) show ?thesis by (simp add: timed_out_def Let_def)
qed

lemma seat_online_two:
  "length (online s) = 2 \<Longrightarrow> seat_online s 0 = online s ! 0"
  "length (online s) = 2 \<Longrightarrow> seat_online s 1 = online s ! 1"
  by (simp_all add: seat_online_def py_index_def)

lemma timed_out_resolves:
  assumes "stage s = WAITING" and "length (users s) = 2" and "length (online s) = 2"
    and "\<not> (online s ! 0 \<and> online s ! 1)" and "w = (if online s ! 0 then 0 else 1)"
  shows "snd (timed_out ev s) = Returned () \<and>
    stage (fst (timed_out ev s)) = FINISHED \<and>
    users (fst (timed_out ev s)) = users s \<and>
    online (fst (timed_out ev s)) = online s \<and>
    effects (fst (timed_out ev s)) =
      effects s @
      [EmitGameOver (game_over w (final_scores ev s)) (room_name s),
       PostDashboard (result_json ev (final_scores ev s) (users s ! 0) (users s ! 1)
                        (users s ! nat w))] @
      bracket_calls (match s) (users s ! nat w) @
      [DeleteMatchId (match_id (match s)),
       RoomUserDelete (user_id (users s ! nat (1 - w))) (match_room_id (match s)),
       SioDisconnect (sid (users s ! nat (1 - w)))]"
proof -
  let ?s1 = "(log INFO ''Match - timed out'' s)\<lparr>stage := FINISHED\<rparr>"
  have us: "users ?s1 = [users s ! 0, users s ! 1]"
    using two_elements[OF assms(2)] by simp
  have w: "w = 0 \<or> w = 1" using assms(5) by simp
  have t: "timed_out ev s = set_win_and_lose ev w ?s1"
    using timed_out_two_seats[OF assms(1-3), of ev] assms(4,5) by auto
  have fs: "final_scores ev ?s1 = final_scores ev s" by (simp add: final_scores_def)
  have nths: "[users s ! 0, users s ! 1] ! nat w = users s ! nat w"
    "[users s ! 0, users s ! 1] ! nat (1 - w) = users s ! nat (1 - w)"
    using w by auto
  show ?thesis
    unfolding t set_win_and_lose_pair[OF us w] fs nths
    by simp
qed

lemma alice_waiting_run:
  "alice_waiting =
     exec [(env_ok, Decide alice), (env_ok, Decide bob), (env_ok, Connect alice)]
       (Match_init final_match ''match_7'' False)"
  by (simp add: alice_waiting_def both_decided_def fresh_def)

lemma playing_run:
  "playing =
     exec [(env_ok, Decide alice), (env_ok, Decide bob), (env_ok, Connect alice),
           (env_ok, Connect bob)]
       (Match_init final_match ''match_7'' False)"
  by (simp add: playing_def alice_waiting_def both_decided_def fresh_def)

lemmas value_defs = seat_online_def py_index_def final_scores_def game_over_def result_json_def
  bracket_calls_def bracket_logs_def fixture_defs

text \<open>
  C4. In every state that a sequence of events reaches from a new session: when the waiting
  timer fires and the stage is not \<open>WAITING\<close>, or both seats are online, \<open>timed_out\<close> only
  writes its log line and returns. When the stage is \<open>WAITING\<close> and only seat 0 is online,
  the session has two seats, \<open>timed_out\<close> returns, the stage is \<open>FINISHED\<close>, and the calls
  made are those of \<open>__set_win\<close> for seat 0 (game-over message, report with seat 0 as
  winner, the bracket calls for seat 0, registry removal), then the deletion of the room
  membership of seat 1 by \<open>__set_lose\<close>, then \<open>sio_disconnect\<close> for the session of seat 1.
  No other disconnect is issued, so the session of seat 0 is not disconnected.
\<close>

theorem C4_timer_fire:
  assumes "s = exec es (Match_init m name with_ai)"
  shows "(stage s \<noteq> WAITING \<or> (seat_online s 0 \<and> seat_online s 1) \<longrightarrow>
            timed_out ev s = (log INFO ''Match - timed out'' s, Returned ())) \<and>
         (stage s = WAITING \<and> seat_online s 0 \<and> \<not> seat_online s 1 \<longrightarrow>
            length (users s) = 2 \<and>
            snd (timed_out ev s) = Returned () \<and>
            stage (fst (timed_out ev s)) = FINISHED \<and>
            effects (fst (timed_out ev s)) =
              effects s @
              [EmitGameOver (game_over 0 (final_scores ev s)) (room_name s),
               PostDashboard (result_json ev (final_scores ev s) (users s ! 0) (users s ! 1)
                                (users s ! 0))] @
              bracket_calls (match s) (users s ! 0) @
              [DeleteMatchId (match_id (match s)),
               RoomUserDelete (user_id (users s ! 1)) (match_room_id (match s)),
               SioDisconnect (sid (users s ! 1))] \<and>
            (sid (users s ! 0) \<noteq> sid (users s ! 1) \<longrightarrow>
               SioDisconnect (sid (users s ! 0)) \<notin>
                 set (drop (length (effects s)) (effects (fst (timed_out ev s))))))"
proof -
  have ok: "seats_ok s" unfolding assms by (rule seats_ok_exec[OF seats_ok_init])
  show ?thesis
  proof (cases "stage s = WAITING")
    case False
    then show ?thesis by (simp add: timed_out_def Let_def)
  next
    case True
    with ok have lu: "length (users s) = 2" and lo: "length (online s) = 2"
      by (auto simp: seats_ok_def)
    note so = seat_online_two[OF lo]
    have both: "seat_online s 0 \<and> seat_online s 1 \<Longrightarrow>
        timed_out ev s = (log INFO ''Match - timed out'' s, Returned ())"
      using timed_out_two_seats[OF True lu lo, of ev] by (simp add: so)
    have only0: "seat_online s 0 \<and> \<not> seat_online s 1 \<Longrightarrow> ?thesis"
    proof -
      assume a: "seat_online s 0 \<and> \<not> seat_online s 1"
      then have n: "\<not> (online s ! 0 \<and> online s ! 1)" and w: "(0::int) = (if online s ! 0 then 0 else 1)"
        by (simp_all add: so)
      from timed_out_resolves[OF True lu lo n w, of ev] a lu True
      show ?thesis by (auto simp: bracket_calls_def split: option.splits)
    qed
    show ?thesis
    proof (cases "seat_online s 0 \<and> \<not> seat_online s 1")
      case True
      then show ?thesis by (rule only0)
    next
      case False
      with both True show ?thesis by auto
    qed
  qed
qed

theorem C4_timer_fire_witness:
  "stage alice_waiting = WAITING \<and> seat_online alice_waiting 0 \<and>
   \<not> seat_online alice_waiting 1 \<and>
   snd (timed_out env_ok alice_waiting) = Returned () \<and>
   stage (fst (timed_out env_ok alice_waiting)) = FINISHED \<and>
   effects (fst (timed_out env_ok alice_waiting)) =
     effects alice_waiting @
     [EmitGameOver \<lparr>winner = ''paddle1'', paddle1 = 0, paddle2 = 0\<rparr> ''match_7'',
      PostDashboard \<lparr>player1_id = 1, player1_score = 0, player2_id = 2, player2_score = 0,
                     winner_id = 1, match_date = 100, play_time = 0\<rparr>,
      RoomUserDeleteAll 1, RoomDelete ''room'', DeleteMatchId 7,
      RoomUserDelete 2 5, SioDisconnect ''sid-b''] \<and>
   stage playing = MATCH \<and> seat_online playing 0 \<and> seat_online playing 1 \<and>
   timed_out env_ok playing = (log INFO ''Match - timed out'' playing, Returned ())"
  using C4_timer_fire[OF alice_waiting_run, of env_ok] C4_timer_fire[OF playing_run, of env_ok]
  by (simp add: alice_waiting_state playing_state value_defs)

text \<open>
  C10. When the waiting timer fires in stage \<open>WAITING\<close> on a session with two seats that
  are not both online, the winner is seat 0 if seat 0 is online and seat 1 otherwise:
  \<open>timed_out\<close> returns, the stage is \<open>FINISHED\<close>, the game-over message and the report
  name seat \<open>w\<close> as winner, the room membership of seat \<open>1 - w\<close> is deleted and its
  session is disconnected. When neither seat is online, \<open>w\<close> is 1: the message says
  \<open>paddle2\<close>, the report names the user of seat 1 as winner, the membership of seat 0 is
  deleted and the last call disconnects the session of seat 0.
\<close>

theorem C10_timer_winner_choice:
  assumes "stage s = WAITING" and "length (users s) = 2" and "length (online s) = 2"
    and "\<not> (seat_online s 0 \<and> seat_online s 1)"
    and "w = (if seat_online s 0 then 0 else 1)"
  shows "snd (timed_out ev s) = Returned () \<and>
    stage (fst (timed_out ev s)) = FINISHED \<and>
    effects (fst (timed_out ev s)) =
      effects s @
      [EmitGameOver (game_over w (final_scores ev s)) (room_name s),
       PostDashboard (result_json ev (final_scores ev s) (users s ! 0) (users s ! 1)
                        (users s ! nat w))] @
      bracket_calls (match s) (users s ! nat w) @
      [DeleteMatchId (match_id (match s)),
       RoomUserDelete (user_id (users s ! nat (1 - w))) (match_room_id (match s)),
       SioDisconnect (sid (users s ! nat (1 - w)))] \<and>
    (\<not> seat_online s 0 \<and> \<not> seat_online s 1 \<longrightarrow>
       w = 1 \<and>
       winner (game_over w (final_scores ev s)) = ''paddle2'' \<and>
       winner_id (result_json ev (final_scores ev s) (users s ! 0) (users s ! 1)
                    (users s ! nat w)) = user_id (users s ! 1) \<and>
       RoomUserDelete (user_id (users s ! 0)) (match_room_id (match s))
         \<in> set (effects (fst (timed_out ev s))) \<and>
       last (effects (fst (timed_out ev s))) = SioDisconnect (sid (users s ! 0)))"
proof -
  note so = seat_online_two[OF assms(3)]
  have n: "\<not> (online s ! 0 \<and> online s ! 1)" using assms(4) by (simp add: so)
  have w: "w = (if online s ! 0 then 0 else 1)" using assms(5) by (simp add: so)
  from timed_out_resolves[OF assms(1-3) n w, of ev]
  show ?thesis using w by (auto simp: so game_over_def result_json_def)
qed

theorem C10_timer_winner_choice_witness:
  "stage (both_decided\<lparr>stage := WAITING\<rparr>) = WAITING \<and>
   \<not> seat_online (both_decided\<lparr>stage := WAITING\<rparr>) 0 \<and>
   \<not> seat_online (both_decided\<lparr>stage := WAITING\<rparr>) 1 \<and>
   snd (timed_out env_ok (both_decided\<lparr>stage := WAITING\<rparr>)) = Returned () \<and>
   stage (fst (timed_out env_ok (both_decided\<lparr>stage := WAITING\<rparr>))) = FINISHED \<and>
   effects (fst (timed_out env_ok (both_decided\<lparr>stage := WAITING\<rparr>))) =
     [EmitGameOver \<lparr>winner = ''paddle2'', paddle1 = 0, paddle2 = 0\<rparr> ''match_7'',
      PostDashboard \<lparr>player1_id = 1, player1_score = 0, player2_id = 2, player2_score = 0,
                     winner_id = 2, match_date = 100, play_time = 0\<rparr>,
      RoomUserDeleteAll 2, RoomDelete ''room'', DeleteMatchId 7,
      RoomUserDelete 1 5, SioDisconnect ''sid-a'']"
  using C10_timer_winner_choice[of "both_decided\<lparr>stage := WAITING\<rparr>" 1 env_ok]
  by (simp add: both_decided_state value_defs)

lemma semi_waiting_state:
  "semi_waiting =
     \<lparr>stage = WAITING, match = semi_match, room_name = ''match_7'', is_with_ai = False,
      users = [alice, bob], online = [True, False], match_process = None,
      waiting_process = Started,
      effects = [EmitInit ''paddle1'' ''sid-a'', EnterRoom ''sid-a'' ''match_7'', WaitingStart],
      logs = [(INFO, ''user is decided to be in room''), (INFO, ''user is decided to be in room''),
              (INFO, ''user is connected to room'')]\<rparr>"
  by (simp add: semi_waiting_def Match_init_def model_defs alice_def bob_def)

text \<open>
  C8. When \<open>__set_win\<close> gets its two users and the response of the report is not \<open>ok\<close>,
  the error is logged and the method still returns: the stage is \<open>FINISHED\<close>, and the calls
  made are, in this order, the game-over message to the room, the report, then the bracket
  step, then the registry removal. The bracket step is, when the match has a next match
  \<open>n\<close>, the creation of the roster entry of the winner for \<open>n\<close> and \<open>match_decided\<close> for
  the winner and \<open>n\<close>; without a next match it is the deletion of the winner's room
  memberships and of the room. Earlier calls and the seats are kept, and apart from the log
  the state and the outcome are those that a successful report leaves.
\<close>

theorem C8_report_failure_not_fatal:
  assumes "py_index (users s) i = Some w" and "py_index (users s) (1 - i) = Some l"
    and "\<not> resp_ok ev"
  shows "snd (set_win ev i s) = Returned () \<and>
    stage (fst (set_win ev i s)) = FINISHED \<and>
    (ERROR, ''resp is not ok'') \<in> set (logs (fst (set_win ev i s))) \<and>
    (\<forall>n. winner_match (match s) = Some n \<longrightarrow>
       effects (fst (set_win ev i s)) =
         effects s @
         [EmitGameOver (game_over i (final_scores ev s)) (room_name s),
          PostDashboard (result_json ev (final_scores ev s) (users s ! 0) (users s ! 1) w),
          MatchUserCreate (user_id w) n, MatchDecided w n,
          DeleteMatchId (match_id (match s))]) \<and>
    (winner_match (match s) = None \<longrightarrow>
       effects (fst (set_win ev i s)) =
         effects s @
         [EmitGameOver (game_over i (final_scores ev s)) (room_name s),
          PostDashboard (result_json ev (final_scores ev s) (users s ! 0) (users s ! 1) w),
          RoomUserDeleteAll (user_id w), RoomDelete (match_room_name (match s)),
          DeleteMatchId (match_id (match s))]) \<and>
    users (fst (set_win ev i s)) = users s \<and> online (fst (set_win ev i s)) = online s \<and>
    (fst (set_win ev i s))\<lparr>logs := []\<rparr> = (fst (set_win (ev\<lparr>resp_ok := True\<rparr>) i s))\<lparr>logs := []\<rparr> \<and>
    snd (set_win ev i s) = snd (set_win (ev\<lparr>resp_ok := True\<rparr>) i s)"
  using assms(3)
  by (simp add: set_win_returned[OF assms(1,2)] final_scores_def result_json_def
        bracket_calls_def cong: option.case_cong)

theorem C8_report_failure_not_fatal_witness:
  "py_index (users semi_waiting) 0 = Some alice \<and>
   py_index (users semi_waiting) (1 - 0) = Some bob \<and> \<not> resp_ok env_down \<and>
   winner_match (match semi_waiting) = Some 8 \<and>
   snd (set_win env_down 0 semi_waiting) = Returned () \<and>
   stage (fst (set_win env_down 0 semi_waiting)) = FINISHED \<and>
   (ERROR, ''resp is not ok'') \<in> set (logs (fst (set_win env_down 0 semi_waiting))) \<and>
   effects (fst (set_win env_down 0 semi_waiting)) =
     effects semi_waiting @
     [EmitGameOver \<lparr>winner = ''paddle1'', paddle1 = 0, paddle2 = 0\<rparr> ''match_7'',
      PostDashboard \<lparr>player1_id = 1, player1_score = 0, player2_id = 2, player2_score = 0,
                     winner_id = 1, match_date = 100, play_time = 0\<rparr>,
      MatchUserCreate 1 8, MatchDecided alice 8, DeleteMatchId 7] \<and>
   py_index (users alice_waiting) 0 = Some alice \<and>
   py_index (users alice_waiting) (1 - 0) = Some bob \<and>
   winner_match (match alice_waiting) = None \<and>
   snd (set_win env_down 0 alice_waiting) = Returned () \<and>
   stage (fst (set_win env_down 0 alice_waiting)) = FINISHED \<and>
   (ERROR, ''resp is not ok'') \<in> set (logs (fst (set_win env_down 0 alice_waiting))) \<and>
   effects (fst (set_win env_down 0 alice_waiting)) =
     effects alice_waiting @
     [EmitGameOver \<lparr>winner = ''paddle1'', paddle1 = 0, paddle2 = 0\<rparr> ''match_7'',
      PostDashboard \<lparr>player1_id = 1, player1_score = 0, player2_id = 2, player2_score = 0,
                     winner_id = 1, match_date = 100, play_time = 0\<rparr>,
      RoomUserDeleteAll 1, RoomDelete ''room'', DeleteMatchId 7]"
  using C8_report_failure_not_fatal[of semi_waiting 0 alice bob env_down]
        C8_report_failure_not_fatal[of alice_waiting 0 alice bob env_down]
  by (simp add: semi_waiting_state alice_waiting_state semi_match_def value_defs)

subsection \<open>A seat that is online stays online\<close>

lemma find_idx_range:
  "find_idx uid us i = k \<Longrightarrow> k \<noteq> - 1 \<Longrightarrow> 0 \<le> i \<Longrightarrow>
   i \<le> k \<and> k < i + int (length us) \<and> user_id (us ! nat (k - i)) = uid"
proof (induction us arbitrary: i)
  case Nil
  then show ?case by simp
next
  case (Cons u us)
  show ?case
  proof (cases "user_id u = uid")
    case True
    with Cons.prems show ?thesis by auto
  next
    case False
    with Cons.prems have r: "find_idx uid us (i + 1) = k" by simp
    from Cons.IH[OF r Cons.prems(2)] Cons.prems(3)
    have "i + 1 \<le> k" "k < i + 1 + int (length us)" "user_id (us ! nat (k - (i + 1))) = uid"
      by auto
    moreover have "nat (k - i) = Suc (nat (k - (i + 1)))" using \<open>i + 1 \<le> k\<close> by simp
    ultimately show ?thesis by simp
  qed
qed

lemma find_idx_ids:
  "map user_id us = map user_id vs \<Longrightarrow> find_idx uid us i = find_idx uid vs i"
proof (induction us arbitrary: vs i)
  case Nil
  then show ?case by simp
next
  case (Cons u us)
  then obtain v vs' where vs: "vs = v # vs'" by (cases vs) auto
  with Cons.prems have "user_id u = user_id v" "map user_id us = map user_id vs'" by auto
  with Cons.IH vs show ?case by simp
qed

lemma find_idx_append:
  "find_idx uid us i \<noteq> - 1 \<Longrightarrow> find_idx uid (us @ vs) i = find_idx uid us i"
  by (induction us arbitrary: i) auto

lemma py_index_append:
  "py_index xs k = Some b \<Longrightarrow> 0 \<le> k \<Longrightarrow> py_index (xs @ ys) k = Some b"
  by (auto simp: py_index_def nth_append split: if_splits)

lemma py_store_True_mono:
  "py_store xs j True = Some ys \<Longrightarrow> py_index xs k = Some True \<Longrightarrow> py_index ys k = Some True"
  by (auto simp: py_store_def py_index_def nth_list_update split: if_splits)

lemma py_store_same_id:
  assumes "find_idx (user_id u) us 0 = k" and "k \<noteq> - 1" and "py_store us k u = Some vs"
  shows "map user_id vs = map user_id us"
proof -
  from find_idx_range[OF assms(1,2)] have r: "0 \<le> k" "k < int (length us)"
    "user_id (us ! nat k) = user_id u" by auto
  then have "vs = us[nat k := u]" using assms(3) by (simp add: py_store_def)
  then have "map user_id vs = (map user_id us)[nat k := user_id (us ! nat k)]"
    using r by (simp add: map_update)
  also have "\<dots> = map user_id us"
    using r by (metis list_update_id nth_map nat_less_iff length_map)
  finally show ?thesis .
qed

lemma joined_same:
  "map user_id (users s') = map user_id (users s) \<Longrightarrow> online s' = online s \<Longrightarrow>
   joined s' uid = joined s uid"
  by (simp add: joined_def seat_online_def find_idx_ids[of "users s'" "users s"])

lemma joined_append:
  assumes "joined s uid" and "users s' = users s @ vs" and "online s' = online s @ bs"
  shows "joined s' uid"
proof -
  from assms(1) have f: "find_idx uid (users s) 0 \<noteq> - 1"
    and o: "py_index (online s) (find_idx uid (users s) 0) = Some True"
    by (simp_all add: joined_def seat_online_def)
  from find_idx_range[OF refl f] have "0 \<le> find_idx uid (users s) 0" by simp
  with o have "py_index (online s @ bs) (find_idx uid (users s) 0) = Some True"
    by (rule py_index_append)
  with f assms(2,3) show ?thesis
    by (simp add: joined_def seat_online_def find_idx_append)
qed

lemma joined_store:
  assumes "joined s uid" and "map user_id (users s') = map user_id (users s)"
    and "online s' = online s \<or> py_store (online s) j True = Some (online s')"
  shows "joined s' uid"
proof -
  from assms(1) have f: "find_idx uid (users s) 0 \<noteq> - 1"
    and o: "py_index (online s) (find_idx uid (users s) 0) = Some True"
    by (simp_all add: joined_def seat_online_def)
  have "py_index (online s') (find_idx uid (users s) 0) = Some True"
    using assms(3) o by (auto dest: py_store_True_mono)
  with f show ?thesis
    by (simp add: joined_def seat_online_def find_idx_ids[OF assms(2)])
qed

lemma joined_user_decided: "joined s uid \<Longrightarrow> joined (fst (user_decided u s)) uid"
proof -
  assume j: "joined s uid"
  let ?s' = "fst (user_decided u s)"
  have "(users ?s' = users s \<and> online ?s' = online s) \<or>
        (users ?s' = users s @ [u] \<and> online ?s' = online s @ [False])"
    by (simp add: user_decided_def Let_def log_def set_stage_waiting_def emit_def
             split: option.split)
  then show ?thesis
    using j joined_append[OF j, of ?s' "[u]" "[False]"] joined_same[of ?s' s uid] by auto
qed

lemma joined_ai_connected: "joined s uid \<Longrightarrow> joined (fst (ai_connected ev a s)) uid"
proof -
  assume j: "joined s uid"
  let ?s' = "fst (ai_connected ev a s)"
  have "users ?s' = users s @ [\<lparr>is_ai = True, sid = a, user_id = AI_ID ev\<rparr>]"
    and "online ?s' = online s @ [True]"
    by (simp_all add: ai_connected_def ai_connected_guarded_def ai_connected_unguarded_def
        Let_def log_def set_stage_match_def waiting_stop_def emit_def)
  then show ?thesis by (rule joined_append[OF j])
qed

lemma timed_out_seats:
  "users (fst (timed_out ev s)) = users s" "online (fst (timed_out ev s)) = online s"
  by (simp_all add: timed_out_def Let_def split: option.split)

lemma alert_winner_seats:
  "users (fst (alert_winner ev w s)) = users s" "online (fst (alert_winner ev w s)) = online s"
  by (simp_all add: alert_winner_def)

lemma user_disconnected_seats:
  "users (fst (user_disconnected ev u s)) = users s \<and>
   online (fst (user_disconnected ev u s)) = online s"
proof (cases "stage s")
  case NOT_STARTED
  then show ?thesis by (simp add: disconnect_simps)
next
  case FINISHED
  then show ?thesis by (simp add: disconnect_simps)
next
  case WAITING
  then show ?thesis by (simp add: disconnect_simps split: option.split)
next
  case MATCH
  show ?thesis
  proof (cases "match_process s")
    case None
    with MATCH show ?thesis by (simp add: disconnect_simps)
  next
    case (Some p)
    let ?idx = "find_idx (user_id u) (users s) 0"
    let ?s2 = "(process_stop p (log INFO ''user is disconnected'' s))\<lparr>stage := FINISHED\<rparr>"
    obtain s3 r where sl: "set_lose ?idx ?s2 = (s3, r)" by (cases "set_lose ?idx ?s2")
    from set_lose_frame[OF sl]
    have s3: "users s3 = users s" "online s3 = online s"
      by (simp_all add: process_stop_def log_def emit_def)
    with sl MATCH Some show ?thesis
      by (cases r) (simp_all add: disconnect_simps)
  qed
qed

lemma user_connected_seats:
  "map user_id (users (fst (user_connected ev u s))) = map user_id (users s) \<and>
   (online (fst (user_connected ev u s)) = online s \<or>
    py_store (online s) (find_idx (user_id u) (users s) 0) True =
      Some (online (fst (user_connected ev u s))))"
proof -
  let ?idx = "find_idx (user_id u) (users s) 0"
  consider (nf) "?idx = - 1"
    | (noidx) "?idx \<noteq> - 1" "py_index (online s) ?idx = None"
    | (dup) "?idx \<noteq> - 1" "py_index (online s) ?idx = Some True"
    | (new) "?idx \<noteq> - 1" "py_index (online s) ?idx = Some False"
    by (cases "py_index (online s) ?idx") auto
  then show ?thesis
  proof cases
    case nf
    then show ?thesis by (simp add: connect_simps)
  next
    case noidx
    then show ?thesis by (simp add: connect_simps)
  next
    case dup
    then show ?thesis by (simp add: connect_simps)
  next
    case new
    show ?thesis
    proof (cases "py_store (users s) ?idx u")
      case None
      with new show ?thesis by (simp add: connect_simps)
    next
      case us: (Some us)
      have ids: "map user_id us = map user_id (users s)"
        by (rule py_store_same_id[OF refl new(1) us])
      show ?thesis
      proof (cases "py_store (online s) ?idx True")
        case None
        with new us ids show ?thesis by (simp add: connect_simps)
      next
        case os: (Some os)
        from new us os ids show ?thesis
          by (simp add: connect_simps split: option.split)
      qed
    qed
  qed
qed

lemma joined_user_connected:
  assumes "joined s uid"
  shows "joined (fst (user_connected ev u s)) uid"
  using user_connected_seats[of ev u s] joined_store[OF assms] by blast

lemma joined_unchanged:
  "joined s uid \<Longrightarrow> users s' = users s \<Longrightarrow> online s' = online s \<Longrightarrow> joined s' uid"
  by (simp add: joined_def seat_online_def)

lemma joined_handle:
  assumes "joined s uid"
  shows "joined (handle ev e s) uid"
proof (cases e)
  case (Decide u)
  with assms show ?thesis by (simp add: joined_user_decided)
next
  case (Connect u)
  with assms show ?thesis by (simp add: joined_user_connected)
next
  case (AiJoin a)
  with assms show ?thesis by (simp add: joined_ai_connected)
next
  case (Disconnect u)
  have "joined (fst (user_disconnected ev u s)) uid"
    using user_disconnected_seats[of ev u s] by (intro joined_unchanged[OF assms]) simp_all
  with Disconnect show ?thesis by simp
next
  case TimerFire
  have "joined (fst (timed_out ev s)) uid"
    by (rule joined_unchanged[OF assms]) (simp_all add: timed_out_seats)
  with TimerFire show ?thesis by simp
next
  case (RunnerConcluded w)
  have "joined (fst (alert_winner ev w s)) uid"
    by (rule joined_unchanged[OF assms]) (simp_all add: alert_winner_seats)
  with RunnerConcluded show ?thesis by simp
qed

lemma joined_exec: "joined s uid \<Longrightarrow> joined (exec es s) uid"
proof (induction es arbitrary: s)
  case Nil
  then show ?case by simp
next
  case (Cons x es)
  obtain ev e where x: "x = (ev, e)" by (cases x)
  from Cons.prems have "joined (handle ev e s) uid" by (rule joined_handle)
  then have "joined (exec es (handle ev e s)) uid" by (rule Cons.IH)
  with x show ?case by simp
qed

lemma joined_duplicate:
  "joined s (user_id u) \<Longrightarrow> user_connected ev u s = duplicate_connect s"
  by (simp add: joined_def seat_online_def duplicate_connect_def connect_simps)

lemma emit_fields [simp]:
  "users (emit e s) = users s" "online (emit e s) = online s"
  "stage (emit e s) = stage s" "match (emit e s) = match s"
  "match_process (emit e s) = match_process s" "room_name (emit e s) = room_name s"
  "logs (emit e s) = logs s" "waiting_process (emit e s) = waiting_process s"
  by (simp_all add: emit_def)

lemma alice_left_state:
  "alice_left =
     \<lparr>stage = FINISHED, match = final_match, room_name = ''match_7'', is_with_ai = False,
      users = [alice, bob], online = [True, False], match_process = None,
      waiting_process = Stopped,
      effects = [EmitInit ''paddle1'' ''sid-a'', EnterRoom ''sid-a'' ''match_7'', WaitingStart,
                 WaitingStop, RoomUserDelete 1 5],
      logs = [(INFO, ''user is decided to be in room''), (INFO, ''user is decided to be in room''),
              (INFO, ''user is connected to room''), (INFO, ''user is disconnected'')]\<rparr>"
  by (simp add: alice_left_def alice_waiting_state model_defs alice_def bob_def final_match_def)

text \<open>
  C6. On a session with both seats bound whose stage is \<open>FINISHED\<close>, a connect of an
  identity that holds a seat which is not online yet returns success and credits that seat
  through \<open>__set_win\<close>, once: after the paddle message and the room entry, one game-over
  message and one report name this user as winner, followed by the bracket calls and the
  registry removal; the stage stays \<open>FINISHED\<close> and the seat is online. The scores are
  (0, 0) when no game process was ever created. After that, whatever events follow, a
  connect with the same identity finds the seat online and only logs that the user is
  connected already.
\<close>

theorem C6_late_connect_wins_once:
  assumes "stage s = FINISHED" and "2 \<le> length (users s)"
    and "length (online s) = length (users s)"
    and "idx = get_user_idx s u" and "idx \<noteq> - 1" and "\<not> seat_online s idx"
    and "s' = fst (user_connected ev u s)"
  shows "snd (user_connected ev u s) = Returned True \<and>
    stage s' = FINISHED \<and>
    users s' = (users s)[nat idx := u] \<and>
    seat_online s' idx \<and>
    effects s' =
      effects s @
      [EmitInit (if idx = 0 then ''paddle1'' else ''paddle2'') (sid u),
       EnterRoom (sid u) (room_name s),
       EmitGameOver (game_over idx (final_scores ev s)) (room_name s),
       PostDashboard (result_json ev (final_scores ev s) (users s' ! 0) (users s' ! 1) u)] @
      bracket_calls (match s) u @ [DeleteMatchId (match_id (match s))] \<and>
    (match_process s = None \<longrightarrow> final_scores ev s = (0, 0)) \<and>
    (\<forall>es ev' u'. user_id u' = user_id u \<longrightarrow>
       user_connected ev' u' (exec es s') = duplicate_connect (exec es s'))"
proof -
  let ?us = "(users s)[nat idx := u]"
  let ?os = "(online s)[nat idx := True]"
  let ?s0 = "log INFO ''user is connected to room'' s"
  let ?s1 = "emit (EmitInit (if idx = 0 then ''paddle1'' else ''paddle2'') (sid u)) ?s0"
  let ?s2 = "emit (EnterRoom (sid u) (room_name ?s1)) ?s1"
  let ?s3 = "?s2\<lparr>users := ?us\<rparr>"
  let ?s4 = "?s3\<lparr>online := ?os\<rparr>"
  let ?s5 = "log INFO ''user is connected, but the stage is marked as FINISHED'' ?s4"
  have f: "find_idx (user_id u) (users s) 0 = idx" using assms(4) by (simp add: get_user_idx_def)
  from find_idx_range[OF f assms(5)]
  have r: "0 \<le> idx" "idx < int (length (users s))" by simp_all
  have on: "py_index (online s) idx = Some False"
    using r assms(3,6) by (simp add: seat_online_def py_index_def)
  have su: "py_store (users s) idx u = Some ?us"
    and so: "py_store (online s) idx True = Some ?os"
    using r assms(3) by (simp_all add: py_store_def)
  have step: "user_connected ev u s =
      (case set_win ev idx ?s5 of (s5, Returned x) \<Rightarrow> (s5, Returned True)
       | (s5, Raised e) \<Rightarrow> (s5, Raised e))"
    using assms(1,5) f on su so by (simp add: user_connected_def Let_def get_user_idx_def)
  have w: "py_index (users ?s5) idx = Some u"
    using r by (simp add: py_index_def)
  have l: "py_index (users ?s5) (1 - idx) = Some (?us ! nat (if idx \<le> 1 then 1 - idx else int (length (users s)) + (1 - idx)))"
    using r assms(2) by (auto simp: py_index_def)
  note sw = set_win_returned[OF w l, of ev]
  have fs: "final_scores ev ?s5 = final_scores ev s" by (simp add: final_scores_def)
  have s'_eq: "s' = fst (set_win ev idx ?s5)" unfolding assms(7) step by simp
  have ret: "snd (user_connected ev u s) = Returned True" unfolding step sw by simp
  have st: "stage s' = FINISHED" unfolding s'_eq sw by simp
  have us: "users s' = ?us" unfolding s'_eq by simp
  have os: "online s' = ?os" unfolding s'_eq by simp
  have seat: "seat_online s' idx"
    using r assms(3) by (simp add: seat_online_def os py_index_def)
  have eff: "effects s' =
      effects s @
      [EmitInit (if idx = 0 then ''paddle1'' else ''paddle2'') (sid u),
       EnterRoom (sid u) (room_name s),
       EmitGameOver (game_over idx (final_scores ev s)) (room_name s),
       PostDashboard (result_json ev (final_scores ev s) (users s' ! 0) (users s' ! 1) u)] @
      bracket_calls (match s) u @ [DeleteMatchId (match_id (match s))]"
    unfolding us unfolding s'_eq sw fs by (simp add: emit_def)
  have ids: "map user_id ?us = map user_id (users s)"
    by (rule py_store_same_id[OF f assms(5) su])
  have j: "joined s' (user_id u)"
    using seat assms(5) f by (simp add: joined_def us find_idx_ids[OF ids])
  have dup: "user_connected ev' u' (exec es s') = duplicate_connect (exec es s')"
    if "user_id u' = user_id u" for es ev' u'
    using joined_exec[OF j, of es] that by (simp add: joined_duplicate)
  from ret st us seat eff dup show ?thesis by (simp add: final_scores_def)
qed

theorem C6_late_connect_wins_once_witness:
  "stage alice_left = FINISHED \<and> get_user_idx alice_left bob = 1 \<and>
   \<not> seat_online alice_left 1 \<and> match_process alice_left = None \<and>
   snd (user_connected env_ok bob alice_left) = Returned True \<and>
   effects (handle env_ok (Connect bob) alice_left) =
     effects alice_left @
     [EmitInit ''paddle2'' ''sid-b'', EnterRoom ''sid-b'' ''match_7'',
      EmitGameOver \<lparr>winner = ''paddle2'', paddle1 = 0, paddle2 = 0\<rparr> ''match_7'',
      PostDashboard \<lparr>player1_id = 1, player1_score = 0, player2_id = 2, player2_score = 0,
                     winner_id = 2, match_date = 100, play_time = 0\<rparr>,
      RoomUserDeleteAll 2, RoomDelete ''room'', DeleteMatchId 7] \<and>
   user_connected env_ok bob
       (exec [(env_ok, Disconnect bob)] (handle env_ok (Connect bob) alice_left)) =
     duplicate_connect
       (exec [(env_ok, Disconnect bob)] (handle env_ok (Connect bob) alice_left))"
proof -
  have h: "stage alice_left = FINISHED" "2 \<le> length (users alice_left)"
    "length (online alice_left) = length (users alice_left)"
    "1 = get_user_idx alice_left bob" "(1::int) \<noteq> - 1" "\<not> seat_online alice_left 1"
    "handle env_ok (Connect bob) alice_left = fst (user_connected env_ok bob alice_left)"
    by (simp_all add: alice_left_state get_user_idx_def seat_online_def py_index_def
          alice_def bob_def)
  note th = C6_late_connect_wins_once[OF h]
  from th have dup: "\<forall>es ev' u'. user_id u' = user_id bob \<longrightarrow>
      user_connected ev' u' (exec es (handle env_ok (Connect bob) alice_left)) =
      duplicate_connect (exec es (handle env_ok (Connect bob) alice_left))"
    by blast
  from th h dup[rule_format, of bob env_ok "[(env_ok, Disconnect bob)]"]
  show ?thesis
    by (simp add: alice_left_state value_defs del: handle.simps exec.simps)
qed

subsection \<open>Regular sequences of events\<close>

text \<open>
  Along a regular sequence the stage never moves backward and the session never has more
  than two seats; once the stage has left \<open>NOT_STARTED\<close> both seats are bound.
\<close>

lemma reg_ok_init: "reg_ok (Match_init m name with_ai)"
  by (simp add: reg_ok_def Match_init_def)

lemma step_user_decided:
  "reg_ok s \<Longrightarrow> reg_ok (fst (user_decided u s)) \<and>
     stage_value (stage s) \<le> stage_value (stage (fst (user_decided u s)))"
  by (auto simp: reg_ok_def user_decided_def Let_def log_def set_stage_waiting_def emit_def
        seat_online_def py_index_def nth_append)

lemma step_ai_connected:
  "reg_ok s \<Longrightarrow> length (users s) = 1 \<Longrightarrow> reg_ok (fst (ai_connected ev a s)) \<and>
     stage_value (stage s) \<le> stage_value (stage (fst (ai_connected ev a s)))"
  by (auto simp: reg_ok_def ai_connected_def ai_connected_guarded_def ai_connected_unguarded_def
        Let_def log_def set_stage_match_def waiting_stop_def emit_def
        seat_online_def py_index_def nth_append)

lemma stage_value_finished [simp]: "stage_value st \<le> 3"
  by (cases st) simp_all

lemma reg_ok_resolved:
  assumes "reg_ok s" and "stage s \<noteq> NOT_STARTED \<or> match_process s \<noteq> None"
    and "users s' = users s" and "online s' = online s"
    and "match_process s' = match_process s \<or> (\<exists>p. match_process s' = Some p)"
    and "stage s' = stage s \<or> stage s' = FINISHED"
  shows "reg_ok s' \<and> stage_value (stage s) \<le> stage_value (stage s')"
  using assms by (auto simp: reg_ok_def seat_online_def)

lemma reg_ok_idle:
  assumes "reg_ok s" and "users s' = users s" and "online s' = online s"
    and "match_process s' = match_process s" and "stage s' = stage s"
  shows "reg_ok s' \<and> stage_value (stage s) \<le> stage_value (stage s')"
  using assms by (auto simp: reg_ok_def seat_online_def)

lemma set_win_and_lose_finished [simp]:
  "stage s = FINISHED \<Longrightarrow> stage (fst (set_win_and_lose ev i s)) = FINISHED"
  using set_win_and_lose_stage[of ev i s] by auto

lemma step_timed_out:
  assumes "reg_ok s"
  shows "reg_ok (fst (timed_out ev s)) \<and>
     stage_value (stage s) \<le> stage_value (stage (fst (timed_out ev s)))"
proof (cases "stage s = WAITING")
  case False
  then show ?thesis by (intro reg_ok_idle[OF assms]) (simp_all add: timed_out_def Let_def)
next
  case True
  let ?s1 = "(log INFO ''Match - timed out'' s)\<lparr>stage := FINISHED\<rparr>"
  have "stage (fst (timed_out ev s)) = stage s \<or> stage (fst (timed_out ev s)) = FINISHED"
    by (simp add: timed_out_def Let_def split: option.split)
  moreover have "match_process (fst (timed_out ev s)) = match_process s"
    by (simp add: timed_out_def Let_def split: option.split)
  ultimately show ?thesis
    using True by (intro reg_ok_resolved[OF assms]) (simp_all add: timed_out_seats)
qed

lemma step_alert_winner:
  assumes "reg_ok s" and "match_process s \<noteq> None"
  shows "reg_ok (fst (alert_winner ev w s)) \<and>
     stage_value (stage s) \<le> stage_value (stage (fst (alert_winner ev w s)))"
proof -
  let ?s1 = "(log INFO ''self.stage is not FINISHED, setting FINISHED and set win and lose'' s)\<lparr>stage := FINISHED\<rparr>"
  have "stage (fst (alert_winner ev w s)) = stage s \<or> stage (fst (alert_winner ev w s)) = FINISHED"
    by (simp add: alert_winner_def)
  moreover have "match_process (fst (alert_winner ev w s)) = match_process s"
    by (simp add: alert_winner_def)
  ultimately show ?thesis
    using assms(2) by (intro reg_ok_resolved[OF assms(1)]) (simp_all add: alert_winner_seats)
qed

lemma user_disconnected_frame:
  "(stage (fst (user_disconnected ev u s)) = stage s \<or>
    stage (fst (user_disconnected ev u s)) = FINISHED) \<and>
   (match_process (fst (user_disconnected ev u s)) = match_process s \<or>
    (\<exists>p. match_process (fst (user_disconnected ev u s)) = Some p)) \<and>
   (stage s = NOT_STARTED \<longrightarrow>
      stage (fst (user_disconnected ev u s)) = NOT_STARTED \<and>
      match_process (fst (user_disconnected ev u s)) = match_process s)"
proof (cases "stage s")
  case NOT_STARTED
  then show ?thesis by (simp add: disconnect_simps)
next
  case FINISHED
  then show ?thesis by (simp add: disconnect_simps)
next
  case WAITING
  then show ?thesis by (simp add: disconnect_simps split: option.split)
next
  case MATCH
  show ?thesis
  proof (cases "match_process s")
    case None
    with MATCH show ?thesis by (simp add: disconnect_simps)
  next
    case (Some p)
    let ?idx = "find_idx (user_id u) (users s) 0"
    let ?s2 = "(process_stop p (log INFO ''user is disconnected'' s))\<lparr>stage := FINISHED\<rparr>"
    obtain s3 r where sl: "set_lose ?idx ?s2 = (s3, r)" by (cases "set_lose ?idx ?s2")
    have fin: "stage (fst (set_lose ?idx ?s2)) = FINISHED" by simp
    from set_lose_frame[OF sl] fin sl
    have s3: "stage s3 = FINISHED" "\<exists>q. match_process s3 = Some q"
      by (simp_all add: process_stop_def log_def emit_def)
    with sl MATCH Some show ?thesis
      by (cases r) (simp_all add: disconnect_simps)
  qed
qed

lemma step_user_disconnected:
  assumes "reg_ok s"
  shows "reg_ok (fst (user_disconnected ev u s)) \<and>
     stage_value (stage s) \<le> stage_value (stage (fst (user_disconnected ev u s)))"
proof (cases "stage s = NOT_STARTED")
  case True
  with user_disconnected_frame[of ev u s] user_disconnected_seats[of ev u s]
  show ?thesis by (intro reg_ok_idle[OF assms]) simp_all
next
  case False
  with user_disconnected_frame[of ev u s] user_disconnected_seats[of ev u s]
  show ?thesis by (intro reg_ok_resolved[OF assms]) simp_all
qed

lemma step_user_connected:
  assumes "reg_ok s"
  shows "reg_ok (fst (user_connected ev u s)) \<and>
     stage_value (stage s) \<le> stage_value (stage (fst (user_connected ev u s)))"
proof -
  let ?idx = "find_idx (user_id u) (users s) 0"
  consider (nf) "?idx = - 1"
    | (noidx) "?idx \<noteq> - 1" "py_index (online s) ?idx = None"
    | (dup) "?idx \<noteq> - 1" "py_index (online s) ?idx = Some True"
    | (new) "?idx \<noteq> - 1" "py_index (online s) ?idx = Some False"
    by (cases "py_index (online s) ?idx") auto
  then show ?thesis
  proof cases
    case nf
    then show ?thesis by (intro reg_ok_idle[OF assms]) (simp_all add: connect_simps)
  next
    case noidx
    then show ?thesis by (intro reg_ok_idle[OF assms]) (simp_all add: connect_simps)
  next
    case dup
    then show ?thesis by (intro reg_ok_idle[OF assms]) (simp_all add: connect_simps)
  next
    case new
    let ?us = "(users s)[nat ?idx := u]"
    let ?os = "(online s)[nat ?idx := True]"
    have len: "length (online s) = length (users s)" using assms by (simp add: reg_ok_def)
    from find_idx_range[OF refl new(1)]
    have r: "0 \<le> ?idx" "?idx < int (length (users s))" by simp_all
    have su: "py_store (users s) ?idx u = Some ?us"
      and so: "py_store (online s) ?idx True = Some ?os"
      using r len by (simp_all add: py_store_def)
    have off: "\<not> online s ! nat ?idx"
      using new(2) r len by (simp add: py_index_def)
    show ?thesis
    proof (cases "stage s = FINISHED")
      case True
      with new su so assms show ?thesis
        by (simp add: connect_simps reg_ok_def)
    next
      case False
      show ?thesis
      proof (cases "length (online s) = 2")
        case ne: False
        with False new su so assms show ?thesis
          by (simp add: connect_simps reg_ok_def)
      next
        case two: True
        then have i01: "?idx = 0 \<or> ?idx = 1" using r len by auto
        have nm: "stage s \<noteq> MATCH \<or> (?idx = 0 \<and> online s ! 1)"
          using assms two off i01 by (auto simp: reg_ok_def seat_online_def py_index_def)
        from i01 show ?thesis
        proof
          assume z: "?idx = 0"
          with False two new su so assms nm len show ?thesis
            by (cases "stage s")
               (auto simp: connect_simps reg_ok_def seat_online_def py_index_def)
        next
          assume o: "?idx = 1"
          with False two new su so assms nm len show ?thesis
            by (cases "stage s")
               (auto simp: connect_simps reg_ok_def seat_online_def py_index_def)
        qed
      qed
    qed
  qed
qed

lemma step_handle:
  assumes "reg_ok s" and "permitted s e"
  shows "reg_ok (handle ev e s) \<and> stage_value (stage s) \<le> stage_value (stage (handle ev e s))"
proof (cases e)
  case (Decide u)
  with step_user_decided[OF assms(1), of u] show ?thesis by simp
next
  case (Connect u)
  with step_user_connected[OF assms(1), of ev u] show ?thesis by simp
next
  case (AiJoin a)
  with assms(2) step_ai_connected[OF assms(1), of ev a] show ?thesis by simp
next
  case (Disconnect u)
  with step_user_disconnected[OF assms(1), of ev u] show ?thesis by simp
next
  case TimerFire
  with step_timed_out[OF assms(1), of ev] show ?thesis by simp
next
  case (RunnerConcluded w)
  with assms(2) step_alert_winner[OF assms(1), of ev w] show ?thesis by simp
qed

lemma regular_run:
  "reg_ok s \<Longrightarrow> regular es s \<Longrightarrow>
   reg_ok (exec es s) \<and> sorted (map stage_value (stage_trace es s))"
proof (induction es arbitrary: s)
  case Nil
  then show ?case by simp
next
  case (Cons x es)
  obtain ev e where x: "x = (ev, e)" by (cases x)
  with Cons.prems have p: "permitted s e" and rest: "regular es (handle ev e s)" by simp_all
  from step_handle[OF Cons.prems(1) p, of ev]
  have ok: "reg_ok (handle ev e s)"
    and le: "stage_value (stage s) \<le> stage_value (stage (handle ev e s))" by simp_all
  from Cons.IH[OF ok rest]
  have ih: "reg_ok (exec es (handle ev e s))"
    "sorted (map stage_value (stage_trace es (handle ev e s)))" by simp_all
  have hd: "stage_trace es (handle ev e s) \<noteq> [] \<and>
            hd (stage_trace es (handle ev e s)) = stage (handle ev e s)"
    by (cases es) auto
  have all: "\<forall>y \<in> set (map stage_value (stage_trace es (handle ev e s))).
               stage_value (stage (handle ev e s)) \<le> y"
    using ih(2) hd
    by (cases "stage_trace es (handle ev e s)") auto
  with le ih x show ?case by auto
qed

lemma regular_from_init:
  assumes "regular es (Match_init m name with_ai)" and "s = exec es (Match_init m name with_ai)"
  shows "sorted (map stage_value (stage_trace es (Match_init m name with_ai)))"
    and "length (users s) \<le> 2"
    and "stage s \<noteq> NOT_STARTED \<Longrightarrow> length (users s) = 2 \<and> length (online s) = 2"
  using regular_run[OF reg_ok_init assms(1)] assms(2) by (auto simp: reg_ok_def)


end
